theory Spec2Isabelle
  imports Main "HOL-Library.Word"
begin

section \<open>Time and durations\<close>

text \<open>
  A Go \<^verbatim>\<open>time.Time\<close> is modelled as the number of nanoseconds since Go's zero time
  (January 1, year 1, 00:00:00 UTC), an unbounded integer; the zero value of
  \<^verbatim>\<open>time.Time\<close> is 0. A \<^verbatim>\<open>time.Duration\<close> is an \<^verbatim>\<open>int64\<close> count of nanoseconds:
  a 64-bit word read by \<open>sint\<close>, so that negation and addition of durations wrap as in Go.
\<close>

type_synonym time = int
type_synonym duration = "64 word"

definition timeAdd :: "time \<Rightarrow> duration \<Rightarrow> time" where
  "timeAdd t d = t + sint d"

definition timeBefore :: "time \<Rightarrow> time \<Rightarrow> bool" where
  "timeBefore t u = (t < u)"

text \<open>
  \<^verbatim>\<open>t.Truncate(d)\<close> rounds \<open>t\<close> down to a multiple of \<open>d\<close> since the zero time and
  returns \<open>t\<close> unchanged when \<open>d <= 0\<close>.
\<close>

definition timeTruncate :: "time \<Rightarrow> duration \<Rightarrow> time" where
  "timeTruncate t d = (if sint d \<le> 0 then t else t - t mod sint d)"

text \<open>
  Where the code compares two \<^verbatim>\<open>time.Time\<close> values with \<^verbatim>\<open>==\<close>, it compares the
  Location they carry as well as the instant. A \<open>timeValue\<close> is an instant with its
  Location, \<open>None\<close> for the nil Location of the zero \<^verbatim>\<open>time.Time\<close>; \<^verbatim>\<open>Truncate\<close> and
  \<^verbatim>\<open>Add\<close> keep the Location, \<^verbatim>\<open>Before\<close> compares the instants. The run loop, which
  compares the interval starts of different clock readings, is written over time values.
  The repair times of one call of \<^verbatim>\<open>repairTimes\<close> all derive from one clock reading and
  carry its Location; the ledger and the functions on it are written over their
  instants, \<open>repairStates r t\<close> being the entry whose key has the instant \<open>t\<close> and
  that Location.
\<close>

record timeValue =
  instant :: time
  location :: "string option"

definition zeroTime :: timeValue where
  "zeroTime = \<lparr>instant = 0, location = None\<rparr>"

definition valueAdd :: "timeValue \<Rightarrow> duration \<Rightarrow> timeValue" where
  "valueAdd v d = v\<lparr>instant := timeAdd (instant v) d\<rparr>"

definition valueBefore :: "timeValue \<Rightarrow> timeValue \<Rightarrow> bool" where
  "valueBefore v u = timeBefore (instant v) (instant u)"

definition valueTruncate :: "timeValue \<Rightarrow> duration \<Rightarrow> timeValue" where
  "valueTruncate v d = v\<lparr>instant := timeTruncate (instant v) d\<rparr>"

section \<open>The repair ledger\<close>

datatype repairStatus = repairNotStarted | repairSuccess | repairFailed

text \<open>\<^verbatim>\<open>NumFailures\<close> is a Go \<^verbatim>\<open>int\<close>, 64 bits wide on the platforms the node runs on.\<close>

record repairState =
  Status :: repairStatus
  NumFailures :: "64 word"

text \<open>The zero value a Go map lookup yields for a missing key.\<close>

definition zeroRepairState :: repairState where
  "zeroRepairState = \<lparr>Status = repairNotStarted, NumFailures = 0\<rparr>"

text \<open>The Go map index expression \<^verbatim>\<open>repairStates[t]\<close>.\<close>

definition lookupState :: "(time \<rightharpoonup> repairState) \<Rightarrow> time \<Rightarrow> repairState" where
  "lookupState states t = (case states t of None \<Rightarrow> zeroRepairState | Some s \<Rightarrow> s)"

record retentionOptions =
  BlockSize :: duration
  RetentionPeriod :: duration
  BufferPast :: duration

record dbRepairer =
  rtopts :: retentionOptions
  repairStates :: "time \<rightharpoonup> repairState"
  repairInterval :: duration
  repairTimeOffset :: duration
  repairTimeJitter :: duration
  repairCheckInterval :: duration
  repairMaxRetries :: "64 word"
  closed :: bool
  running :: "32 word"

definition needsRepair :: "dbRepairer \<Rightarrow> time \<Rightarrow> bool" where
  "needsRepair r t =
     (case repairStates r t of
        None \<Rightarrow> True
      | Some repairState \<Rightarrow>
          Status repairState = repairFailed \<and> NumFailures repairState <s repairMaxRetries r)"


section \<open>Errors\<close>

text \<open>
  Go \<^verbatim>\<open>error\<close> values; \<^verbatim>\<open>nil\<close> is \<open>None\<close> of \<open>err option\<close>. \<open>Errorf\<close> is the
  error built by \<^verbatim>\<open>fmt.Errorf("namespace %s failed to repair time %v: %v", ...)\<close> from
  its three arguments; \<open>MultiError\<close> is a non-empty \<^verbatim>\<open>xerrors.MultiError\<close> returned
  by \<^verbatim>\<open>FinalError\<close>.
\<close>

datatype err =
    errNoRepairOptions
  | errRepairInProgress
  | ExternalError string
  | Errorf string time err
  | MultiError "err list"

text \<open>
  Modelled from the spec: \<^verbatim>\<open>MultiError\<close> is declared in the m3x errors package, not in
  \<^verbatim>\<open>storage/repair.go\<close>. It collects errors, all of them preserved:
  \<^verbatim>\<open>NewMultiError()\<close> is empty, \<^verbatim>\<open>Add\<close> appends a non-nil error, and
  \<^verbatim>\<open>FinalError()\<close> is \<^verbatim>\<open>nil\<close> when the list is empty and the aggregate otherwise.
\<close>

definition NewMultiError :: "err list" where
  "NewMultiError = []"

definition multiErrAdd :: "err list \<Rightarrow> err option \<Rightarrow> err list" where
  "multiErrAdd multiErr e = (case e of None \<Rightarrow> multiErr | Some x \<Rightarrow> multiErr @ [x])"

definition FinalError :: "err list \<Rightarrow> err option" where
  "FinalError multiErr = (if multiErr = [] then None else Some (MultiError multiErr))"

text \<open>How a call ends: it returns a value or it panics.\<close>

datatype 'a exit = Return 'a | Panic

section \<open>The shard repairer\<close>

text \<open>
  Metadata of one block of one series (series id, block start, size, checksum); the
  peers' metadata carries the host it came from.
\<close>

type_synonym blocksMetadata = "(string \<times> time \<times> 64 word \<times> 32 word) list"
type_synonym peerBlocksMetadata = "(string \<times> string \<times> time \<times> 64 word \<times> 32 word) list"

text \<open>
  Modelled from the spec: \<^verbatim>\<open>repair.MetadataComparisonResult\<close> is declared in package
  \<^verbatim>\<open>storage/repair\<close>, not in \<^verbatim>\<open>storage/repair.go\<close>; it has the totals \<open>numSeries\<close>
  and \<open>numBlocks\<close> and two collections of (series, block) pairs. Its zero value
  \<^verbatim>\<open>repair.MetadataComparisonResult{}\<close> has zero totals and empty collections.
\<close>

record MetadataComparisonResult =
  NumSeries :: "64 word"
  NumBlocks :: "64 word"
  SizeDifferences :: "(string \<times> time) list"
  ChecksumDifferences :: "(string \<times> time) list"

definition emptyMetadataComparisonResult :: MetadataComparisonResult where
  "emptyMetadataComparisonResult =
     \<lparr>NumSeries = 0, NumBlocks = 0, SizeDifferences = [], ChecksumDifferences = []\<rparr>"

text \<open>
  Modelled from the spec: the admin session is declared in package \<^verbatim>\<open>client\<close>, not in
  \<^verbatim>\<open>storage/repair.go\<close>; it exposes \<open>Origin()\<close>, \<open>Replicas()\<close> and
  \<open>FetchBlocksMetadataFromPeers(namespaceID, shardID, start, end) \<rightarrow> (iterator, error)\<close>.
\<close>

record adminSession =
  Origin :: string
  Replicas :: "string list"
  FetchBlocksMetadataFromPeers ::
    "string \<Rightarrow> 32 word \<Rightarrow> time \<Rightarrow> time \<Rightarrow> err + peerBlocksMetadata"

text \<open>
  Modelled from the spec: the \<^verbatim>\<open>databaseShard\<close> interface is declared in another file
  of package \<^verbatim>\<open>storage\<close>, not in \<^verbatim>\<open>storage/repair.go\<close>; it exposes \<open>ID()\<close> and
  \<open>FetchBlocksMetadata(ctx, start, end, limit, pageToken, includeSizes, includeChecksums)
  \<rightarrow> (localMetadataResult, error)\<close>. The result is a reference that can be nil (\<open>None\<close>),
  as the result of a Go call that fails usually is. The repairer always passes the
  limit \<^verbatim>\<open>math.MaxInt64\<close>, the page token 0 and both flags true, so the model keeps
  the window only.
\<close>

record databaseShard =
  shardID :: "32 word"
  FetchBlocksMetadata :: "time \<Rightarrow> time \<Rightarrow> blocksMetadata option \<times> err option"

text \<open>
  Modelled from the spec: the replica metadata comparer is declared in package
  \<^verbatim>\<open>storage/repair\<close>, not in \<^verbatim>\<open>storage/repair.go\<close>. It is built for a replica set,
  takes the origin's metadata (\<open>AddLocalMetadata\<close>) and the peers'
  (\<open>AddPeerMetadata\<close>, which may fail) and produces the result with \<open>Compare()\<close>;
  what it computes is a black box, the functions \<open>addPeerMetadataErr\<close> and
  \<open>compareFn\<close> of the repairer below.
\<close>

record replicaMetadataComparer =
  cmpReplicas :: "string list"
  cmpLocal :: "(string \<times> blocksMetadata) option"
  cmpPeers :: "peerBlocksMetadata option"

definition NewReplicaMetadataComparer :: "string list \<Rightarrow> replicaMetadataComparer" where
  "NewReplicaMetadataComparer replicas =
     \<lparr>cmpReplicas = replicas, cmpLocal = None, cmpPeers = None\<rparr>"

text \<open>
  The fields of \<^verbatim>\<open>shardRepairer\<close> that \<^verbatim>\<open>Repair\<close> reads. \<open>client\<close> is what
  \<^verbatim>\<open>r.client.DefaultAdminSession()\<close> returns; \<open>filteredBlocksMetadata\<close> stands for
  \<^verbatim>\<open>block.NewFilteredBlocksMetadataIter\<close>.
\<close>

record shardRepairer =
  client :: "err + adminSession"
  blockSize :: duration
  filteredBlocksMetadata :: "blocksMetadata \<Rightarrow> blocksMetadata"
  addPeerMetadataErr :: "peerBlocksMetadata \<Rightarrow> err option"
  compareFn :: "replicaMetadataComparer \<Rightarrow> MetadataComparisonResult"

text \<open>What \<^verbatim>\<open>Repair\<close> does to its collaborators, in order.\<close>

datatype event =
    RegisterCloser
  | FetchLocal time time
  | AddLocalMetadata string
  | CloseLocalMetadata
  | FetchFromPeers string "32 word" time time
  | AddPeerMetadata
  | Compare
  | Record string "32 word" MetadataComparisonResult
  | CloseFetchCtx

text \<open>
  \<^verbatim>\<open>shardRepairer.Repair(ctx, namespace, t, shard)\<close>: how the call ends (with the result
  and the error it returns, or by a panic) and the events. The second value of the local
  fetch is bound to \<^verbatim>\<open>_\<close>. The result of the local fetch is wrapped, handed to the
  comparer and closed without a test for nil; on a nil result the call
  \<^verbatim>\<open>localMetadata.Close()\<close> panics. The deferred \<^verbatim>\<open>fetchCtx.Close()\<close> runs last on every
  path after the fetch context was created, a panic included.
\<close>

definition shardRepairer_Repair ::
  "shardRepairer \<Rightarrow> string \<Rightarrow> time \<Rightarrow> databaseShard \<Rightarrow>
     (MetadataComparisonResult \<times> err option) exit \<times> event list" where
  "shardRepairer_Repair r namespace t shard =
     (case client r of
        Inl e \<Rightarrow> (Return (emptyMetadataComparisonResult, Some e), [])
      | Inr session \<Rightarrow>
          let start = t;
              end = timeAdd t (blockSize r);
              origin = Origin session;
              replicas = Replicas session;
              metadata = NewReplicaMetadataComparer replicas;
              (localMetadata, _) = FetchBlocksMetadata shard start end;
              evs = [RegisterCloser, FetchLocal start end, AddLocalMetadata origin,
                     CloseLocalMetadata]
          in (case localMetadata of
                None \<Rightarrow> (Panic, evs @ [CloseFetchCtx])
              | Some found \<Rightarrow>
                  let localIter = filteredBlocksMetadata r found;
                      metadata = metadata\<lparr>cmpLocal := Some (origin, localIter)\<rparr>;
                      evs = evs @ [FetchFromPeers namespace (shardID shard) start end]
                  in (case FetchBlocksMetadataFromPeers session namespace (shardID shard)
                             start end of
                        Inl e \<Rightarrow>
                          (Return (emptyMetadataComparisonResult, Some e),
                           evs @ [CloseFetchCtx])
                      | Inr peerIter \<Rightarrow>
                          (case addPeerMetadataErr r peerIter of
                             Some e \<Rightarrow>
                               (Return (emptyMetadataComparisonResult, Some e),
                                evs @ [AddPeerMetadata, CloseFetchCtx])
                           | None \<Rightarrow>
                               let metadata = metadata\<lparr>cmpPeers := Some peerIter\<rparr>;
                                   metadataRes = compareFn r metadata
                               in (Return (metadataRes, None),
                                   evs @ [AddPeerMetadata, Compare,
                                          Record namespace (shardID shard) metadataRes,
                                          CloseFetchCtx])))))"

section \<open>The database repairer\<close>

text \<open>
  Modelled from the spec: the database and its namespaces are declared in other files of
  package \<^verbatim>\<open>storage\<close>, not in \<^verbatim>\<open>storage/repair.go\<close>. A namespace exposes \<open>ID()\<close> and
  \<open>Repair(shardRepairer, timestamp) \<rightarrow> error\<close>; \<open>nsRepair n t\<close> is what that call
  returns at \<open>t\<close>.
\<close>

record namespace =
  nsID :: string
  nsRepair :: "time \<Rightarrow> err option"

text \<open>
  What one call of \<^verbatim>\<open>dbRepairer.Repair\<close> observes of its surroundings:
  \<^item> \<open>IsBootstrapped\<close>: the answer of \<^verbatim>\<open>r.database.IsBootstrapped()\<close>;
  \<^item> \<open>nowFn\<close>: the clock reading of \<^verbatim>\<open>r.nowFn()\<close>, taken once, in \<^verbatim>\<open>repairTimes\<close>;
  \<^item> \<open>getOwnedNamespaces t\<close>: the snapshot \<^verbatim>\<open>r.database.getOwnedNamespaces()\<close> returns
    when \<^verbatim>\<open>repairWithTime(t)\<close> asks for it;
  \<^item> \<open>makeslicePanics start end blockSize\<close>: whether
    \<^verbatim>\<open>make([]time.Time, 0, int(float64(end.Sub(start))/float64(blockSize)))\<close> panics, as Go's
    \<^verbatim>\<open>make\<close> does on a negative or too large capacity. The capacity is computed in
    float64 and does not influence the contents of the slice, so it is not modelled
    further.
\<close>

record world =
  IsBootstrapped :: bool
  nowFn :: time
  getOwnedNamespaces :: "time \<Rightarrow> namespace list"
  makeslicePanics :: "time \<Rightarrow> time \<Rightarrow> duration \<Rightarrow> bool"

text \<open>
  The loop of \<^verbatim>\<open>repairTimes\<close>:
  \<^verbatim>\<open>for t := end; !t.Before(start); t = t.Add(-blockSize)\<close>. It does not end for every
  block size, so it is a partial function: \<open>None\<close> is a loop that never exits.
\<close>

partial_function (option) repairTimesLoop ::
  "dbRepairer \<Rightarrow> time \<Rightarrow> duration \<Rightarrow> time \<Rightarrow> time list \<Rightarrow> time list option" where
  "repairTimesLoop r start blockSz t repairTimes =
     (if \<not> timeBefore t start
      then repairTimesLoop r start blockSz (timeAdd t (- blockSz))
             (if needsRepair r t then repairTimes @ [t] else repairTimes)
      else Some repairTimes)"

declare repairTimesLoop.simps [code]

definition repairStart :: "world \<Rightarrow> dbRepairer \<Rightarrow> time" where
  "repairStart w r =
     timeTruncate (timeAdd (nowFn w) (- RetentionPeriod (rtopts r))) (BlockSize (rtopts r))"

definition repairEnd :: "world \<Rightarrow> dbRepairer \<Rightarrow> time" where
  "repairEnd w r =
     timeTruncate
       (timeAdd (timeAdd (nowFn w) (- BufferPast (rtopts r))) (- BlockSize (rtopts r)))
       (BlockSize (rtopts r))"

definition repairTimes :: "world \<Rightarrow> dbRepairer \<Rightarrow> time list exit option" where
  "repairTimes w r =
     (let blockSize = BlockSize (rtopts r);
          start = repairStart w r;
          end = repairEnd w r
      in if makeslicePanics w start end blockSize then Some Panic
         else map_option Return (repairTimesLoop r start blockSize end []))"

text \<open>One call \<^verbatim>\<open>n.Repair(r.shardRepairer, t)\<close> made by the repairer.\<close>

datatype call = NamespaceRepair string time

text \<open>
  The loop of \<^verbatim>\<open>repairWithTime\<close> over the namespaces, threading the \<^verbatim>\<open>MultiError\<close>
  and the calls made.
\<close>

fun repairNamespaces ::
  "time \<Rightarrow> namespace list \<Rightarrow> err list \<times> call list \<Rightarrow> err list \<times> call list" where
  "repairNamespaces t [] acc = acc"
| "repairNamespaces t (n # namespaces) (multiErr, calls) =
     (case nsRepair n t of
        Some e \<Rightarrow>
          repairNamespaces t namespaces
            (multiErrAdd multiErr (Some (Errorf (nsID n) t e)),
             calls @ [NamespaceRepair (nsID n) t])
      | None \<Rightarrow>
          repairNamespaces t namespaces (multiErr, calls @ [NamespaceRepair (nsID n) t]))"

definition repairWithTime :: "world \<Rightarrow> time \<Rightarrow> err option \<times> call list" where
  "repairWithTime w t =
     (let (multiErr, calls) = repairNamespaces t (getOwnedNamespaces w t) (NewMultiError, [])
      in (FinalError multiErr, calls))"

text \<open>
  The loop of \<^verbatim>\<open>Repair\<close> over the repair times, threading the ledger, the
  \<^verbatim>\<open>MultiError\<close> and the calls made.
\<close>

fun repairLoop ::
  "world \<Rightarrow> time list \<Rightarrow> (time \<rightharpoonup> repairState) \<times> err list \<times> call list \<Rightarrow>
     (time \<rightharpoonup> repairState) \<times> err list \<times> call list" where
  "repairLoop w [] acc = acc"
| "repairLoop w (repairTime # rest) (states, multiErr, calls) =
     (let (e, calls') = repairWithTime w repairTime;
          repairState = lookupState states repairTime
      in (case e of
            None \<Rightarrow>
              repairLoop w rest
                (states(repairTime \<mapsto> repairState\<lparr>Status := repairSuccess\<rparr>),
                 multiErr, calls @ calls')
          | Some x \<Rightarrow>
              repairLoop w rest
                (states(repairTime \<mapsto>
                   repairState\<lparr>Status := repairFailed,
                               NumFailures := NumFailures repairState + 1\<rparr>),
                 multiErrAdd multiErr e, calls @ calls')))"

text \<open>
  What \<^verbatim>\<open>Repair\<close> does, in order: its writes to the \<open>running\<close> flag and its calls of
  the namespaces.
\<close>

datatype step = SetRunning "32 word" | Call call

text \<open>
  The atomic operations on \<open>r.running\<close>. Each takes the repairer and the steps made so
  far; a write changes the flag and is recorded as a step. \<^verbatim>\<open>CompareAndSwapInt32\<close>
  writes only when the flag holds \<open>old\<close>, and says whether it did.
\<close>

definition CompareAndSwapInt32 ::
  "32 word \<Rightarrow> 32 word \<Rightarrow> dbRepairer \<times> step list \<Rightarrow> bool \<times> dbRepairer \<times> step list" where
  "CompareAndSwapInt32 old new s =
     (case s of (r, steps) \<Rightarrow>
        if running r = old then (True, r\<lparr>running := new\<rparr>, steps @ [SetRunning new])
        else (False, r, steps))"

definition StoreInt32 :: "32 word \<Rightarrow> dbRepairer \<times> step list \<Rightarrow> dbRepairer \<times> step list" where
  "StoreInt32 v s = (case s of (r, steps) \<Rightarrow> (r\<lparr>running := v\<rparr>, steps @ [SetRunning v]))"

definition LoadInt32 :: "dbRepairer \<Rightarrow> 32 word" where
  "LoadInt32 r = running r"

text \<open>
  \<^verbatim>\<open>dbRepairer.Repair()\<close>: how the call ends, the repairer afterwards and the steps
  made; \<open>None\<close> when the call never ends. The deferred store of 0 runs on every exit
  after the compare-and-swap succeeded, a panic included.
\<close>

definition dbRepairer_Repair ::
  "world \<Rightarrow> dbRepairer \<Rightarrow> (err option exit \<times> dbRepairer \<times> step list) option" where
  "dbRepairer_Repair w r =
     (if \<not> IsBootstrapped w then Some (Return None, r, [])
      else
        (case CompareAndSwapInt32 0 1 (r, []) of
           (False, r, steps) \<Rightarrow> Some (Return (Some errRepairInProgress), r, steps)
         | (True, r, steps) \<Rightarrow>
             (case repairTimes w r of
                None \<Rightarrow> None
              | Some Panic \<Rightarrow>
                  (case StoreInt32 0 (r, steps) of (r, steps) \<Rightarrow> Some (Panic, r, steps))
              | Some (Return candidates) \<Rightarrow>
                  let (states, multiErr, calls) =
                        repairLoop w candidates (repairStates r, NewMultiError, [])
                  in (case StoreInt32 0 (r\<lparr>repairStates := states\<rparr>, steps @ map Call calls) of
                        (r, steps) \<Rightarrow> Some (Return (FinalError multiErr), r, steps)))))"

definition IsRepairing :: "dbRepairer \<Rightarrow> bool" where
  "IsRepairing r = (LoadInt32 r = 1)"

section \<open>The run loop\<close>

text \<open>
  One turn of the loop of \<^verbatim>\<open>run\<close> reads the \<open>closed\<close> flag (set by \<^verbatim>\<open>Stop\<close> from
  another goroutine) and, after sleeping, the clock. The loop only ends when it reads
  \<open>closed\<close>; \<open>runLoop\<close> runs it over the readings of its first turns and returns the
  calls of \<^verbatim>\<open>r.repairFn()\<close> made in them, each with the \<open>intervalStart\<close> and the
  \<open>now\<close> of its turn.
\<close>

record tick =
  readClosed :: bool
  readNow :: timeValue

fun runLoop ::
  "dbRepairer \<Rightarrow> timeValue \<Rightarrow> tick list \<Rightarrow> (timeValue \<times> timeValue) list" where
  "runLoop r curIntervalStart [] = []"
| "runLoop r curIntervalStart (k # ticks) =
     (if readClosed k then []
      else
        let now = readNow k;
            intervalStart = valueTruncate now (repairInterval r);
            target = valueAdd intervalStart (repairTimeOffset r + repairTimeJitter r)
        in if valueBefore now target then runLoop r curIntervalStart ticks
           else if intervalStart = curIntervalStart then runLoop r curIntervalStart ticks
           else (intervalStart, now) # runLoop r intervalStart ticks)"

text \<open>\<^verbatim>\<open>run\<close> starts with the zero \<^verbatim>\<open>time.Time\<close> in \<open>curIntervalStart\<close>.\<close>

definition run :: "dbRepairer \<Rightarrow> tick list \<Rightarrow> (timeValue \<times> timeValue) list" where
  "run r ticks = runLoop r zeroTime ticks"

section \<open>What a pass is expected to do\<close>

text \<open>
  The calls and the errors the specification expects of a pass over given repair times,
  written without the loops; the theorems below compare the loops with them.
  \<open>namespaceCalls w t\<close> is one call for each owned namespace at \<open>t\<close>, in order;
  \<open>namespaceErrors w t\<close> holds the wrapped error of each namespace that fails at \<open>t\<close>;
  \<open>passCalls\<close> and \<open>passErrors\<close> collect them over the repair times.
\<close>

definition namespaceCalls :: "world \<Rightarrow> time \<Rightarrow> call list" where
  "namespaceCalls w t = map (\<lambda>n. NamespaceRepair (nsID n) t) (getOwnedNamespaces w t)"

definition namespaceErrors :: "world \<Rightarrow> time \<Rightarrow> err list" where
  "namespaceErrors w t =
     List.map_filter (\<lambda>n. map_option (Errorf (nsID n) t) (nsRepair n t))
       (getOwnedNamespaces w t)"

definition passCalls :: "world \<Rightarrow> time list \<Rightarrow> call list" where
  "passCalls w ts = concat (map (namespaceCalls w) ts)"

definition passErrors :: "world \<Rightarrow> time list \<Rightarrow> err list" where
  "passErrors w ts = List.map_filter (\<lambda>t. FinalError (namespaceErrors w t)) ts"

text \<open>
  The ledger entry expected for \<open>t\<close> after its attempt: status Success when the
  attempt returns nil, otherwise status Failed and one more failure.
\<close>

definition recordedState :: "world \<Rightarrow> (time \<rightharpoonup> repairState) \<Rightarrow> time \<Rightarrow> repairState" where
  "recordedState w states t =
     (case fst (repairWithTime w t) of
        None \<Rightarrow> (lookupState states t)\<lparr>Status := repairSuccess\<rparr>
      | Some e \<Rightarrow>
          (lookupState states t)
            \<lparr>Status := repairFailed, NumFailures := NumFailures (lookupState states t) + 1\<rparr>)"

section \<open>Example inputs\<close>

text \<open>
  A repairer with blocks of 2ns, a retention of 5ns and no write buffer, whose ledger
  holds a block that failed once, a block that failed three times (the maximum) and a
  repaired block.
\<close>

definition exampleRepairer :: dbRepairer where
  "exampleRepairer =
     \<lparr>rtopts = \<lparr>BlockSize = 2, RetentionPeriod = 5, BufferPast = 0\<rparr>,
      repairStates =
        [6 \<mapsto> \<lparr>Status = repairFailed, NumFailures = 1\<rparr>,
         100 \<mapsto> \<lparr>Status = repairFailed, NumFailures = 3\<rparr>,
         102 \<mapsto> \<lparr>Status = repairSuccess, NumFailures = 0\<rparr>],
      repairInterval = 10, repairTimeOffset = 1, repairTimeJitter = 1,
      repairCheckInterval = 1, repairMaxRetries = 3, closed = False, running = 0\<rparr>"

text \<open>Two namespaces; the first fails to repair the block at 6.\<close>

definition exampleNamespaces :: "namespace list" where
  "exampleNamespaces =
     [\<lparr>nsID = ''metrics'',
       nsRepair = (\<lambda>t. if t = 6 then Some (ExternalError ''peer down'') else None)\<rparr>,
      \<lparr>nsID = ''traces'', nsRepair = (\<lambda>t. None)\<rparr>]"

text \<open>A bootstrapped node whose clock reads 10.\<close>

definition exampleWorld :: world where
  "exampleWorld =
     \<lparr>IsBootstrapped = True, nowFn = 10, getOwnedNamespaces = (\<lambda>t. exampleNamespaces),
      makeslicePanics = (\<lambda>start end blockSize. False)\<rparr>"

text \<open>A clock reading at the instant \<open>i\<close> in the Location named \<open>l\<close>, with the loop open.\<close>

definition timeAt :: "string \<Rightarrow> time \<Rightarrow> timeValue" where
  "timeAt l i = \<lparr>instant = i, location = Some l\<rparr>"

definition reading :: "string \<Rightarrow> time \<Rightarrow> tick" where
  "reading l i = \<lparr>readClosed = False, readNow = timeAt l i\<rparr>"

text \<open>
  Readings of the run loop with a clock that moves forward in one Location: too early in
  the interval that starts at 10, then past its target, then later in the same interval,
  then past the target of the interval that starts at 20, then stopped.
\<close>

definition exampleTicks :: "tick list" where
  "exampleTicks =
     [reading ''Local'' 11, reading ''Local'' 12, reading ''Local'' 15, reading ''Local'' 22,
      \<lparr>readClosed = True, readNow = timeAt ''Local'' 33\<rparr>]"

text \<open>Readings with a clock that is set back from 22 to 13.\<close>

definition exampleTicksBackwards :: "tick list" where
  "exampleTicksBackwards = [reading ''Local'' 12, reading ''Local'' 22, reading ''Local'' 13]"

text \<open>Readings with a clock that moves forward and changes its Location.\<close>

definition exampleTicksRelocated :: "tick list" where
  "exampleTicksRelocated = [reading ''Local'' 12, reading ''Asia/Tokyo'' 13]"

text \<open>A repairer whose offset and jitter add up to more than an \<^verbatim>\<open>int64\<close> holds.\<close>

definition exampleRepairerOverflow :: dbRepairer where
  "exampleRepairerOverflow =
     exampleRepairer\<lparr>repairTimeOffset := 2 ^ 62, repairTimeJitter := 2 ^ 62\<rparr>"






section \<open>Properties of \<open>needsRepair\<close>\<close>

text \<open>
  C3: a timestamp with no ledger entry needs repair; a timestamp whose entry is Failed
  needs repair exactly while its failure count is below \<open>repairMaxRetries\<close> (so not
  once the count equals or exceeds it); a timestamp whose entry is Success never needs
  repair, whatever its failure count.
\<close>

theorem needsRepair_cases:
  "(repairStates r t = None \<longrightarrow> needsRepair r t) \<and>
   (\<forall>s. repairStates r t = Some s \<and> Status s = repairFailed \<and>
        sint (NumFailures s) < sint (repairMaxRetries r) \<longrightarrow> needsRepair r t) \<and>
   (\<forall>s. repairStates r t = Some s \<and> Status s = repairFailed \<and>
        sint (repairMaxRetries r) \<le> sint (NumFailures s) \<longrightarrow> \<not> needsRepair r t) \<and>
   (\<forall>s. repairStates r t = Some s \<and> Status s = repairSuccess \<longrightarrow> \<not> needsRepair r t)"
  by (auto simp: needsRepair_def word_sless_alt)

theorem needsRepair_cases_witness:
  "repairStates exampleRepairer 8 = None \<and> needsRepair exampleRepairer 8 \<and>
   needsRepair exampleRepairer 6 \<and> \<not> needsRepair exampleRepairer 100 \<and>
   \<not> needsRepair exampleRepairer 102"
  using needsRepair_cases [of exampleRepairer 8] needsRepair_cases [of exampleRepairer 6]
    needsRepair_cases [of exampleRepairer 100] needsRepair_cases [of exampleRepairer 102]
  by (simp add: exampleRepairer_def)

lemma needsRepair_running [simp]: "needsRepair (r\<lparr>running := x\<rparr>) t = needsRepair r t"
  by (simp add: needsRepair_def split: option.split)

text \<open>
  The failure count of a timestamp that needs repair is below the largest \<^verbatim>\<open>int\<close>, so
  incrementing it does not wrap around.
\<close>

lemma needsRepair_no_overflow:
  assumes "needsRepair r t"
  shows "sint (NumFailures (lookupState (repairStates r) t) + 1) =
         sint (NumFailures (lookupState (repairStates r) t)) + 1"
proof (cases "repairStates r t")
  case None
  then show ?thesis by (simp add: lookupState_def zeroRepairState_def)
next
  case (Some s)
  with assms have "sint (NumFailures s) < sint (repairMaxRetries r)"
    by (simp add: needsRepair_def word_sless_alt)
  moreover have "sint (repairMaxRetries r) < 2 ^ 63"
    using sint_lt [of "repairMaxRetries r"] by simp
  moreover have "- (2 ^ 63) \<le> sint (NumFailures s)"
    using sint_ge [of "NumFailures s"] by simp
  ultimately have "signed_take_bit 63 (sint (NumFailures s) + 1) = sint (NumFailures s) + 1"
    by (intro signed_take_bit_int_eq_self) simp_all
  with Some show ?thesis by (simp add: lookupState_def sint_word_ariths)
qed

section \<open>Truncation and the step of the loop\<close>

lemma sint_neg_pos:
  fixes b :: "64 word"
  assumes "0 < sint b"
  shows "sint (- b) = - sint b"
proof -
  have "sint b < 2 ^ 63" using sint_lt [of b] by simp
  with assms have "- (2 ^ 63) \<le> - sint b" and "- sint b < 2 ^ 63" by simp_all
  then have "signed_take_bit 63 (- sint b) = - sint b"
    by (rule signed_take_bit_int_eq_self)
  then show ?thesis by (simp add: sint_word_minus)
qed

lemma sorted_wrt_greater_distinct: "sorted_wrt (>) (xs :: int list) \<Longrightarrow> distinct xs"
  by (induction xs) auto

lemma timeTruncate_idem: "timeTruncate (timeTruncate t b) b = timeTruncate t b"
  by (simp add: timeTruncate_def)

lemma timeTruncate_le: "timeTruncate t b \<le> t"
  by (simp add: timeTruncate_def)

lemma timeTruncate_gt: "0 < sint b \<Longrightarrow> t - sint b < timeTruncate t b"
  by (simp add: timeTruncate_def)

lemma aligned_step:
  assumes "timeTruncate t b = t"
  shows "timeTruncate (timeAdd t (- b)) b = timeAdd t (- b)"
proof (cases "0 < sint b")
  case True
  with assms have "t mod sint b = 0" by (simp add: timeTruncate_def)
  then have "(t - sint b) mod sint b = 0"
    by (simp add: mod_diff_right_eq [symmetric] del: mod_diff_right_eq)
  with True show ?thesis by (simp add: timeTruncate_def timeAdd_def sint_neg_pos)
next
  case False
  then show ?thesis by (simp add: timeTruncate_def)
qed

section \<open>The loop of \<open>repairTimes\<close>\<close>

text \<open>
  When a step moves \<open>t\<close> back (a positive block size, or the smallest \<^verbatim>\<open>int64\<close>, whose
  negation is itself), the loop ends, and what it appends lies between \<open>start\<close> and
  \<open>t\<close>, needs repair, is aligned when \<open>t\<close> is, and descends.
\<close>

lemma repairTimesLoop_decreasing:
  assumes dec: "sint (- b) < 0"
  shows "\<exists>zs. repairTimesLoop r start b t acc = Some (acc @ zs) \<and>
           (\<forall>z\<in>set zs. start \<le> z \<and> z \<le> t \<and> needsRepair r z \<and>
              (timeTruncate t b = t \<longrightarrow> timeTruncate z b = z)) \<and>
           sorted_wrt (>) zs"
proof (induction "nat (t - start + 1)" arbitrary: t acc rule: less_induct)
  case less
  show ?case
  proof (cases "timeBefore t start")
    case True
    then have "repairTimesLoop r start b t acc = Some (acc @ [])"
      by (subst repairTimesLoop.simps) simp
    then show ?thesis by force
  next
    case False
    let ?t = "timeAdd t (- b)"
    let ?acc = "if needsRepair r t then acc @ [t] else acc"
    from False dec have lt: "?t < t" and ge: "start \<le> t"
      by (simp_all add: timeAdd_def timeBefore_def)
    then have "nat (?t - start + 1) < nat (t - start + 1)" by simp
    from less [OF this, of ?acc] obtain zs
      where run: "repairTimesLoop r start b ?t ?acc = Some (?acc @ zs)"
        and props: "\<forall>z\<in>set zs. start \<le> z \<and> z \<le> ?t \<and> needsRepair r z \<and>
              (timeTruncate ?t b = ?t \<longrightarrow> timeTruncate z b = z)"
        and desc: "sorted_wrt (>) zs"
      by blast
    from False run have eq: "repairTimesLoop r start b t acc = Some (?acc @ zs)"
      by (subst repairTimesLoop.simps) simp
    let ?zs = "if needsRepair r t then t # zs else zs"
    have "repairTimesLoop r start b t acc = Some (acc @ ?zs)" using eq by simp
    moreover have "\<forall>z\<in>set ?zs. start \<le> z \<and> z \<le> t \<and> needsRepair r z \<and>
              (timeTruncate t b = t \<longrightarrow> timeTruncate z b = z)"
      using props lt ge aligned_step [of t b] by auto
    moreover have "sorted_wrt (>) ?zs" using desc props lt by auto
    ultimately show ?thesis by blast
  qed
qed

text \<open>When a step does not move \<open>t\<close> back, the loop only ends if it is never entered.\<close>

lemma repairTimesLoop_stuck:
  assumes run: "repairTimesLoop r start b t acc = Some y" and nondec: "0 \<le> sint (- b)"
  shows "y = acc"
proof -
  have "0 \<le> sint (- b) \<longrightarrow> timeBefore t start"
  proof (rule repairTimesLoop.raw_induct
      [where P = "\<lambda>r start b t acc y. 0 \<le> sint (- b) \<longrightarrow> timeBefore t start", OF _ run])
    fix f r start b t acc y
    assume IH: "\<And>r start b t acc y. f r start b t acc = Some y \<Longrightarrow>
        0 \<le> sint (- b) \<longrightarrow> timeBefore t start"
      and step: "(if \<not> timeBefore t start
          then f r start b (timeAdd t (- b)) (if needsRepair r t then acc @ [t] else acc)
          else Some acc) = Some y"
    show "0 \<le> sint (- b) \<longrightarrow> timeBefore t start"
    proof (rule impI, rule ccontr)
      assume nd: "0 \<le> sint (- b)" and "\<not> timeBefore t start"
      with step IH have "timeBefore (timeAdd t (- b)) start" by auto
      with nd \<open>\<not> timeBefore t start\<close> show False by (simp add: timeBefore_def timeAdd_def)
    qed
  qed
  with nondec have "timeBefore t start" by simp
  with run show ?thesis by (subst (asm) repairTimesLoop.simps) simp
qed

lemma repairTimesLoop_sound:
  assumes "repairTimesLoop r start b t [] = Some ts"
  shows "(\<forall>z\<in>set ts. start \<le> z \<and> z \<le> t \<and> needsRepair r z \<and>
            (timeTruncate t b = t \<longrightarrow> timeTruncate z b = z)) \<and>
         sorted_wrt (>) ts"
proof (cases "sint (- b) < 0")
  case True
  from repairTimesLoop_decreasing [OF True, of r start t "[]"] assms show ?thesis by auto
next
  case False
  then have "ts = []" using repairTimesLoop_stuck [OF assms] by simp
  then show ?thesis by simp
qed

lemma repairTimesLoop_returns:
  assumes "0 < sint b"
  shows "\<exists>ts. repairTimesLoop r start b t [] = Some ts"
proof -
  from assms have "sint (- b) < 0" by (simp add: sint_neg_pos)
  from repairTimesLoop_decreasing [OF this, of r start t "[]"] show ?thesis by auto
qed

text \<open>The loop reads the repairer through \<open>needsRepair\<close> only.\<close>

lemma repairTimesLoop_needs:
  assumes run: "repairTimesLoop r start b t acc = Some y"
    and eq: "\<And>u. needsRepair r' u = needsRepair r u"
  shows "repairTimesLoop r' start b t acc = Some y"
proof -
  have "needsRepair r' = needsRepair r \<longrightarrow> repairTimesLoop r' start b t acc = Some y"
  proof (rule repairTimesLoop.raw_induct
      [where P = "\<lambda>r start b t acc y.
         needsRepair r' = needsRepair r \<longrightarrow> repairTimesLoop r' start b t acc = Some y",
       OF _ run])
    fix f r start b t acc y
    assume IH: "\<And>r start b t acc y. f r start b t acc = Some y \<Longrightarrow>
        needsRepair r' = needsRepair r \<longrightarrow> repairTimesLoop r' start b t acc = Some y"
      and step: "(if \<not> timeBefore t start
          then f r start b (timeAdd t (- b)) (if needsRepair r t then acc @ [t] else acc)
          else Some acc) = Some y"
    show "needsRepair r' = needsRepair r \<longrightarrow> repairTimesLoop r' start b t acc = Some y"
    proof
      assume same: "needsRepair r' = needsRepair r"
      show "repairTimesLoop r' start b t acc = Some y"
      proof (cases "timeBefore t start")
        case True
        with step show ?thesis by (subst repairTimesLoop.simps) simp
      next
        case False
        with step
        have "f r start b (timeAdd t (- b)) (if needsRepair r t then acc @ [t] else acc) = Some y"
          by simp
        from IH [OF this] same
        have "repairTimesLoop r' start b (timeAdd t (- b))
                (if needsRepair r t then acc @ [t] else acc) = Some y"
          by blast
        with False same show ?thesis by (subst repairTimesLoop.simps) simp
      qed
    qed
  qed
  with eq show ?thesis by (simp add: fun_eq_iff)
qed

lemma repairTimesLoop_running:
  "repairTimesLoop (r\<lparr>running := x\<rparr>) start b t acc = repairTimesLoop r start b t acc"
proof (cases "repairTimesLoop r start b t acc")
  case (Some y)
  from repairTimesLoop_needs [OF this, of "r\<lparr>running := x\<rparr>"] Some show ?thesis by simp
next
  case None
  show ?thesis
  proof (cases "repairTimesLoop (r\<lparr>running := x\<rparr>) start b t acc")
    case (Some y)
    from repairTimesLoop_needs [OF this, of r] None show ?thesis by simp
  next
    case None': None
    with None show ?thesis by simp
  qed
qed

lemma repairTimes_running: "repairTimes w (r\<lparr>running := x\<rparr>) = repairTimes w r"
  by (simp add: repairTimes_def repairStart_def repairEnd_def repairTimesLoop_running Let_def)

lemma repairTimes_sound:
  assumes "repairTimes w r = Some (Return ts)"
  shows "(\<forall>t\<in>set ts. repairStart w r \<le> t \<and> t \<le> repairEnd w r \<and> needsRepair r t \<and>
            timeTruncate t (BlockSize (rtopts r)) = t) \<and>
         sorted_wrt (>) ts \<and> distinct ts"
proof -
  from assms
  have loop: "repairTimesLoop r (repairStart w r) (BlockSize (rtopts r)) (repairEnd w r) [] =
      Some ts"
    by (auto simp: repairTimes_def Let_def split: if_splits)
  have "timeTruncate (repairEnd w r) (BlockSize (rtopts r)) = repairEnd w r"
    by (simp add: repairEnd_def timeTruncate_idem)
  with repairTimesLoop_sound [OF loop] show ?thesis
    by (auto dest: sorted_wrt_greater_distinct)
qed

section \<open>Properties of \<open>repairTimes\<close>\<close>

text \<open>
  C2, as the code has it. Whenever \<open>repairTimes\<close> returns, every timestamp it returns
  is block-aligned and lies between \<open>start\<close>, the truncation of
  \<^verbatim>\<open>now.Add(-retentionPeriod)\<close>, and \<open>end\<close>, the truncation of
  \<^verbatim>\<open>now.Add(-bufferPast).Add(-blockSize)\<close>, both bounds included; for a positive block
  size it is a multiple of the block size, later than
  \<^verbatim>\<open>now.Add(-retentionPeriod)\<close> minus one block and not later than
  \<^verbatim>\<open>now.Add(-bufferPast).Add(-blockSize)\<close>. The timestamps descend strictly and none
  occurs twice. For a positive block size \<open>repairTimes\<close> does return, unless the
  allocation of the slice panics.
\<close>

theorem repairTimes_window:
  "(\<forall>ts. repairTimes w r = Some (Return ts) \<longrightarrow>
      (\<forall>t\<in>set ts.
         timeTruncate t (BlockSize (rtopts r)) = t \<and>
         repairStart w r \<le> t \<and> t \<le> repairEnd w r \<and>
         (0 < sint (BlockSize (rtopts r)) \<longrightarrow>
            t mod sint (BlockSize (rtopts r)) = 0 \<and>
            timeAdd (nowFn w) (- RetentionPeriod (rtopts r)) - sint (BlockSize (rtopts r)) < t \<and>
            t \<le> timeAdd (timeAdd (nowFn w) (- BufferPast (rtopts r)))
                  (- BlockSize (rtopts r)))) \<and>
      sorted_wrt (>) ts \<and> distinct ts) \<and>
   (0 < sint (BlockSize (rtopts r)) \<and>
    \<not> makeslicePanics w (repairStart w r) (repairEnd w r) (BlockSize (rtopts r)) \<longrightarrow>
      (\<exists>ts. repairTimes w r = Some (Return ts)))"
proof (intro conjI allI impI ballI)
  fix ts t
  assume ret: "repairTimes w r = Some (Return ts)" and t: "t \<in> set ts"
  from repairTimes_sound [OF ret] t
  show al: "timeTruncate t (BlockSize (rtopts r)) = t"
    and lo: "repairStart w r \<le> t" and hi: "t \<le> repairEnd w r"
    by auto
  assume pos: "0 < sint (BlockSize (rtopts r))"
  from al pos show "t mod sint (BlockSize (rtopts r)) = 0" by (simp add: timeTruncate_def)
  from lo timeTruncate_gt [OF pos, of "timeAdd (nowFn w) (- RetentionPeriod (rtopts r))"]
  show "timeAdd (nowFn w) (- RetentionPeriod (rtopts r)) - sint (BlockSize (rtopts r)) < t"
    by (simp add: repairStart_def)
  from hi
    timeTruncate_le [of "timeAdd (timeAdd (nowFn w) (- BufferPast (rtopts r)))
      (- BlockSize (rtopts r))" "BlockSize (rtopts r)"]
  show "t \<le> timeAdd (timeAdd (nowFn w) (- BufferPast (rtopts r))) (- BlockSize (rtopts r))"
    by (simp add: repairEnd_def)
next
  fix ts
  assume "repairTimes w r = Some (Return ts)"
  from repairTimes_sound [OF this] show "sorted_wrt (>) ts" and "distinct ts" by auto
next
  assume "0 < sint (BlockSize (rtopts r)) \<and>
    \<not> makeslicePanics w (repairStart w r) (repairEnd w r) (BlockSize (rtopts r))"
  then show "\<exists>ts. repairTimes w r = Some (Return ts)"
    using repairTimesLoop_returns
      [of "BlockSize (rtopts r)" r "repairStart w r" "repairEnd w r"]
    by (auto simp: repairTimes_def Let_def)
qed

theorem repairTimes_window_witness:
  "repairTimes exampleWorld exampleRepairer = Some (Return [8, 6, 4]) \<and>
   0 < sint (BlockSize (rtopts exampleRepairer)) \<and>
   \<not> makeslicePanics exampleWorld (repairStart exampleWorld exampleRepairer)
       (repairEnd exampleWorld exampleRepairer) (BlockSize (rtopts exampleRepairer)) \<and>
   repairStart exampleWorld exampleRepairer = 4 \<and> repairEnd exampleWorld exampleRepairer = 8 \<and>
   timeTruncate 6 (BlockSize (rtopts exampleRepairer)) = 6 \<and>
   sorted_wrt (>) [8, 6, 4 :: int] \<and> distinct [8, 6, 4 :: int]"
proof -
  have cands: "repairTimes exampleWorld exampleRepairer = Some (Return [8, 6, 4])"
    by code_simp
  have start: "repairStart exampleWorld exampleRepairer = 4"
    and stop: "repairEnd exampleWorld exampleRepairer = 8"
    by (simp_all add: repairStart_def repairEnd_def exampleWorld_def exampleRepairer_def
        timeTruncate_def timeAdd_def)
  from repairTimes_window [of exampleWorld exampleRepairer] cands start stop show ?thesis
    by (simp add: exampleWorld_def exampleRepairer_def)
qed

text \<open>
  C2 as stated fails. With the clock at 10, blocks of 2, a retention of 5 and no write
  buffer, \<open>repairTimes\<close> returns 8, 6 and 4: the timestamp 4 is not later than
  now - retentionPeriod = 5, and the timestamp 8 is not earlier than
  now - bufferPast - blockSize = 8.
\<close>

theorem repairTimes_strictly_between_counterexample:
  "repairTimes exampleWorld exampleRepairer = Some (Return [8, 6, 4]) \<and>
   \<not> (nowFn exampleWorld - sint (RetentionPeriod (rtopts exampleRepairer)) < 4) \<and>
   \<not> (8 < nowFn exampleWorld - sint (BufferPast (rtopts exampleRepairer))
            - sint (BlockSize (rtopts exampleRepairer)))"
proof -
  have "repairTimes exampleWorld exampleRepairer = Some (Return [8, 6, 4])"
    by code_simp
  then show ?thesis by (simp add: exampleWorld_def exampleRepairer_def)
qed

section \<open>The loops of \<open>Repair\<close> and \<open>repairWithTime\<close>\<close>

lemma repairNamespaces_eq:
  "repairNamespaces t ns (multiErr, calls) =
     (multiErr @ List.map_filter (\<lambda>n. map_option (Errorf (nsID n) t) (nsRepair n t)) ns,
      calls @ map (\<lambda>n. NamespaceRepair (nsID n) t) ns)"
proof (induction ns arbitrary: multiErr calls)
  case Nil
  show ?case by (simp add: List.map_filter_simps)
next
  case (Cons n ns)
  show ?case
    by (cases "nsRepair n t") (simp_all add: Cons.IH List.map_filter_simps multiErrAdd_def)
qed

lemma repairWithTime_eq:
  "repairWithTime w t = (FinalError (namespaceErrors w t), namespaceCalls w t)"
  by (simp add: repairWithTime_def repairNamespaces_eq NewMultiError_def namespaceErrors_def
      namespaceCalls_def)

lemma namespaceErrors_Nil:
  "namespaceErrors w t = [] \<longleftrightarrow> (\<forall>n\<in>set (getOwnedNamespaces w t). nsRepair n t = None)"
  by (auto simp: namespaceErrors_def List.map_filter_def filter_empty_conv)

lemma passErrors_Nil:
  "passErrors w ts = [] \<longleftrightarrow>
     (\<forall>t\<in>set ts. \<forall>n\<in>set (getOwnedNamespaces w t). nsRepair n t = None)"
  by (auto simp: passErrors_def List.map_filter_def filter_empty_conv FinalError_def
      namespaceErrors_Nil)

lemma repairLoop_Cons:
  "repairLoop w (t # ts) (states, multiErr, calls) =
     repairLoop w ts
       (states(t \<mapsto> recordedState w states t),
        multiErrAdd multiErr (fst (repairWithTime w t)),
        calls @ snd (repairWithTime w t))"
  by (cases "repairWithTime w t")
    (simp add: recordedState_def multiErrAdd_def Let_def split: option.split)

lemma repairLoop_errors_calls:
  "snd (repairLoop w ts (states, multiErr, calls)) =
     (multiErr @ passErrors w ts, calls @ passCalls w ts)"
proof (induction ts arbitrary: states multiErr calls)
  case Nil
  show ?case by (simp add: passErrors_def passCalls_def List.map_filter_simps)
next
  case (Cons t ts)
  show ?case
    by (cases "FinalError (namespaceErrors w t)")
      (simp_all add: repairLoop_Cons Cons.IH repairWithTime_eq multiErrAdd_def passErrors_def
        passCalls_def List.map_filter_simps del: repairLoop.simps)
qed

lemma lookupState_upd_other: "t \<noteq> u \<Longrightarrow> lookupState (states(u \<mapsto> s)) t = lookupState states t"
  by (simp add: lookupState_def)

lemma lookupState_Some: "states t = Some s \<Longrightarrow> lookupState states t = s"
  by (simp add: lookupState_def)

lemma recordedState_upd_other:
  "t \<noteq> u \<Longrightarrow> recordedState w (states(u \<mapsto> s)) t = recordedState w states t"
  by (simp add: recordedState_def lookupState_upd_other split: option.split)

lemma recordedState_success:
  "fst (repairWithTime w t) = None \<Longrightarrow>
   recordedState w states t = (lookupState states t)\<lparr>Status := repairSuccess\<rparr>"
  by (simp add: recordedState_def)

lemma recordedState_failure:
  "fst (repairWithTime w t) \<noteq> None \<Longrightarrow>
   recordedState w states t =
     (lookupState states t)
       \<lparr>Status := repairFailed, NumFailures := NumFailures (lookupState states t) + 1\<rparr>"
  by (auto simp: recordedState_def)

lemma recordedState_monotone:
  assumes "needsRepair r t"
  shows "sint (NumFailures (lookupState (repairStates r) t))
           \<le> sint (NumFailures (recordedState w (repairStates r) t))"
proof (cases "fst (repairWithTime w t)")
  case None
  then show ?thesis by (simp add: recordedState_success)
next
  case (Some e)
  then show ?thesis
    using needsRepair_no_overflow [OF assms] by (simp add: recordedState_failure)
qed

lemma repairLoop_ledger:
  "distinct ts \<Longrightarrow>
   fst (repairLoop w ts (states, multiErr, calls)) t =
     (if t \<in> set ts then Some (recordedState w states t) else states t)"
proof (induction ts arbitrary: states multiErr calls)
  case Nil
  show ?case by simp
next
  case (Cons u ts)
  then have fresh: "u \<notin> set ts" and dist: "distinct ts" by simp_all
  have other: "recordedState w (states(u \<mapsto> s)) t = recordedState w states t"
    if "t \<in> set ts" for s
    using that fresh by (intro recordedState_upd_other) auto
  show ?case
    using fresh by (simp add: repairLoop_Cons Cons.IH [OF dist] other del: repairLoop.simps)
qed

text \<open>
  A call on a bootstrapped database that finds the flag clear, when \<open>repairTimes\<close>
  returns and when it panics: what \<open>Repair\<close> returns, the repairer afterwards and the
  steps made.
\<close>

lemma Repair_pass:
  assumes "IsBootstrapped w" and "running r = 0" and "repairTimes w r = Some (Return ts)"
  shows "dbRepairer_Repair w r =
     Some (Return (FinalError (passErrors w ts)),
           r\<lparr>repairStates := fst (repairLoop w ts (repairStates r, [], [])), running := 0\<rparr>,
           SetRunning 1 # map Call (passCalls w ts) @ [SetRunning 0])"
proof -
  obtain states multiErr calls
    where loop: "repairLoop w ts (repairStates r, [], []) = (states, multiErr, calls)"
    by (cases "repairLoop w ts (repairStates r, [], [])") auto
  from repairLoop_errors_calls [of w ts "repairStates r" "[]" "[]"] loop
  have "multiErr = passErrors w ts" and "calls = passCalls w ts" by simp_all
  with assms loop show ?thesis
    by (simp add: dbRepairer_Repair_def CompareAndSwapInt32_def StoreInt32_def
        repairTimes_running NewMultiError_def)
qed

lemma Repair_panic:
  assumes "IsBootstrapped w" and "running r = 0" and "repairTimes w r = Some Panic"
  shows "dbRepairer_Repair w r = Some (Panic, r\<lparr>running := 0\<rparr>, [SetRunning 1, SetRunning 0])"
  using assms
  by (simp add: dbRepairer_Repair_def CompareAndSwapInt32_def StoreInt32_def
      repairTimes_running)

lemma Repair_diverges:
  assumes "IsBootstrapped w" and "running r = 0" and "repairTimes w r = None"
  shows "dbRepairer_Repair w r = None"
  using assms
  by (simp add: dbRepairer_Repair_def CompareAndSwapInt32_def repairTimes_running)

section \<open>Properties of \<open>Repair\<close> of the database repairer\<close>

text \<open>
  C8: when the database is not bootstrapped, \<open>Repair\<close> returns nil, makes no repair
  attempt for any timestamp and leaves the repairer, its ledger included, as it was.
\<close>

theorem Repair_not_bootstrapped:
  "\<not> IsBootstrapped w \<Longrightarrow> dbRepairer_Repair w r = Some (Return None, r, [])"
  by (simp add: dbRepairer_Repair_def)

theorem Repair_not_bootstrapped_witness:
  "\<not> IsBootstrapped (exampleWorld\<lparr>IsBootstrapped := False\<rparr>) \<and>
   dbRepairer_Repair (exampleWorld\<lparr>IsBootstrapped := False\<rparr>) exampleRepairer =
     Some (Return None, exampleRepairer, [])"
  using Repair_not_bootstrapped [of "exampleWorld\<lparr>IsBootstrapped := False\<rparr>" exampleRepairer]
  by simp

text \<open>
  C10: when the database is not bootstrapped, \<open>Repair\<close> returns nil whatever the
  running flag holds, also while another pass is in flight: it does not return
  RepairInProgress, it makes no step on the flag and leaves it as it was, and how it
  ends does not depend on the flag.
\<close>

theorem Repair_bootstrap_check_first:
  "\<not> IsBootstrapped w \<Longrightarrow>
   dbRepairer_Repair w (r\<lparr>running := x\<rparr>) = Some (Return None, r\<lparr>running := x\<rparr>, []) \<and>
   dbRepairer_Repair w (r\<lparr>running := x\<rparr>) \<noteq>
     Some (Return (Some errRepairInProgress), r\<lparr>running := x\<rparr>, []) \<and>
   map_option fst (dbRepairer_Repair w (r\<lparr>running := x\<rparr>)) =
     map_option fst (dbRepairer_Repair w (r\<lparr>running := y\<rparr>))"
  by (simp add: dbRepairer_Repair_def)

theorem Repair_bootstrap_check_first_witness:
  "\<not> IsBootstrapped (exampleWorld\<lparr>IsBootstrapped := False\<rparr>) \<and>
   IsRepairing (exampleRepairer\<lparr>running := 1\<rparr>) \<and>
   dbRepairer_Repair (exampleWorld\<lparr>IsBootstrapped := False\<rparr>) (exampleRepairer\<lparr>running := 1\<rparr>) =
     Some (Return None, exampleRepairer\<lparr>running := 1\<rparr>, [])"
  using Repair_bootstrap_check_first
    [where w = "exampleWorld\<lparr>IsBootstrapped := False\<rparr>" and r = exampleRepairer
       and x = 1 and y = 0]
  by (simp add: IsRepairing_def LoadInt32_def)

text \<open>
  C6: on a bootstrapped database, a call that finds the running flag set returns
  RepairInProgress at once, with the repairer (ledger and flag) unchanged, no write to
  the flag and no namespace called; a call that finds the flag clear does not end this
  way: when \<open>repairTimes\<close> returns, it sets the flag, runs the pass, calling every
  namespace at every repair time, and clears the flag, and what it returns is not
  RepairInProgress.
\<close>

theorem Repair_in_progress:
  "(IsBootstrapped w \<and> running r \<noteq> 0 \<longrightarrow>
      dbRepairer_Repair w r = Some (Return (Some errRepairInProgress), r, [])) \<and>
   (IsBootstrapped w \<and> running r = 0 \<longrightarrow>
      dbRepairer_Repair w r \<noteq> Some (Return (Some errRepairInProgress), r, []) \<and>
      (\<forall>ts. repairTimes w r = Some (Return ts) \<longrightarrow>
         (\<exists>e r'. dbRepairer_Repair w r =
            Some (Return e, r',
                  SetRunning 1 #
                  map Call (concat (map (\<lambda>t. map (\<lambda>n. NamespaceRepair (nsID n) t)
                                              (getOwnedNamespaces w t)) ts)) @
                  [SetRunning 0]) \<and>
            e \<noteq> Some errRepairInProgress)))"
proof (intro conjI impI allI)
  assume "IsBootstrapped w \<and> running r \<noteq> 0"
  then show "dbRepairer_Repair w r = Some (Return (Some errRepairInProgress), r, [])"
    by (simp add: dbRepairer_Repair_def CompareAndSwapInt32_def)
next
  assume a: "IsBootstrapped w \<and> running r = 0"
  then show "dbRepairer_Repair w r \<noteq> Some (Return (Some errRepairInProgress), r, [])"
    by (auto simp: dbRepairer_Repair_def CompareAndSwapInt32_def StoreInt32_def Let_def
        split: option.splits exit.splits prod.splits)
  fix ts
  assume "repairTimes w r = Some (Return ts)"
  with a have "dbRepairer_Repair w r =
     Some (Return (FinalError (passErrors w ts)),
           r\<lparr>repairStates := fst (repairLoop w ts (repairStates r, [], [])), running := 0\<rparr>,
           SetRunning 1 # map Call (passCalls w ts) @ [SetRunning 0])"
    by (intro Repair_pass) simp_all
  then show "\<exists>e r'. dbRepairer_Repair w r =
            Some (Return e, r',
                  SetRunning 1 #
                  map Call (concat (map (\<lambda>t. map (\<lambda>n. NamespaceRepair (nsID n) t)
                                              (getOwnedNamespaces w t)) ts)) @
                  [SetRunning 0]) \<and>
            e \<noteq> Some errRepairInProgress"
    by (simp add: passCalls_def namespaceCalls_def [abs_def] FinalError_def)
qed

theorem Repair_in_progress_witness:
  "IsBootstrapped exampleWorld \<and> running (exampleRepairer\<lparr>running := 1\<rparr>) \<noteq> 0 \<and>
   dbRepairer_Repair exampleWorld (exampleRepairer\<lparr>running := 1\<rparr>) =
     Some (Return (Some errRepairInProgress), exampleRepairer\<lparr>running := 1\<rparr>, []) \<and>
   running exampleRepairer = 0 \<and>
   repairTimes exampleWorld exampleRepairer = Some (Return [8, 6, 4]) \<and>
   (\<exists>e r'. dbRepairer_Repair exampleWorld exampleRepairer =
      Some (Return e, r',
            [SetRunning 1,
             Call (NamespaceRepair ''metrics'' 8), Call (NamespaceRepair ''traces'' 8),
             Call (NamespaceRepair ''metrics'' 6), Call (NamespaceRepair ''traces'' 6),
             Call (NamespaceRepair ''metrics'' 4), Call (NamespaceRepair ''traces'' 4),
             SetRunning 0]) \<and>
      e \<noteq> Some errRepairInProgress)"
proof -
  have boot: "IsBootstrapped exampleWorld" by (simp add: exampleWorld_def)
  have idle: "running exampleRepairer = 0" by (simp add: exampleRepairer_def)
  have cands: "repairTimes exampleWorld exampleRepairer = Some (Return [8, 6, 4])"
    by code_simp
  from Repair_in_progress [of exampleWorld "exampleRepairer\<lparr>running := 1\<rparr>"]
    Repair_in_progress [of exampleWorld exampleRepairer] boot idle cands
  show ?thesis
    by (simp add: exampleWorld_def exampleNamespaces_def)
qed

text \<open>
  C7: when a call on a bootstrapped database finds the flag clear and ends, by
  returning nil or an aggregate error or by a panic, it has set the running flag
  first, made no other write to the flag during the pass and cleared the flag last;
  the flag is clear afterwards and \<open>IsRepairing\<close> is false. Such a call does not end with
  RepairInProgress.
\<close>

theorem Repair_clears_running:
  assumes "IsBootstrapped w" and "running r = 0"
    and "dbRepairer_Repair w r = Some (ex, r', steps)"
  shows "(\<exists>calls. steps = SetRunning 1 # map Call calls @ [SetRunning 0]) \<and>
         running r' = 0 \<and> \<not> IsRepairing r' \<and>
         ex \<noteq> Return (Some errRepairInProgress)"
proof (cases "repairTimes w r")
  case None
  from Repair_diverges [OF assms(1,2) None] assms(3) show ?thesis by simp
next
  case (Some ended)
  show ?thesis
  proof (cases ended)
    case Panic
    with Some have "repairTimes w r = Some Panic" by simp
    from Repair_panic [OF assms(1,2) this] assms(3)
    have "steps = SetRunning 1 # map Call [] @ [SetRunning 0]"
      and "running r' = 0" and "ex = Panic"
      by auto
    then show ?thesis by (auto simp: IsRepairing_def LoadInt32_def)
  next
    case (Return ts)
    with Some have "repairTimes w r = Some (Return ts)" by simp
    from Repair_pass [OF assms(1,2) this] assms(3)
    have "steps = SetRunning 1 # map Call (passCalls w ts) @ [SetRunning 0]"
      and "running r' = 0" and "ex = Return (FinalError (passErrors w ts))"
      by auto
    then show ?thesis by (auto simp: IsRepairing_def LoadInt32_def FinalError_def)
  qed
qed

theorem Repair_clears_running_witness:
  "IsBootstrapped exampleWorld \<and> running exampleRepairer = 0 \<and>
   (\<exists>e r' calls. dbRepairer_Repair exampleWorld exampleRepairer =
        Some (Return (Some e), r', SetRunning 1 # map Call calls @ [SetRunning 0]) \<and>
      running r' = 0 \<and> \<not> IsRepairing r') \<and>
   (\<exists>r'. dbRepairer_Repair (exampleWorld\<lparr>makeslicePanics := \<lambda>start end blockSize. True\<rparr>)
            exampleRepairer =
        Some (Panic, r', [SetRunning 1, SetRunning 0]) \<and>
      running r' = 0 \<and> \<not> IsRepairing r')"
proof -
  let ?w = "exampleWorld\<lparr>makeslicePanics := \<lambda>start end blockSize. True\<rparr>"
  have boot: "IsBootstrapped exampleWorld" and boot': "IsBootstrapped ?w"
    by (simp_all add: exampleWorld_def)
  have idle: "running exampleRepairer = 0" by (simp add: exampleRepairer_def)
  have cands: "repairTimes exampleWorld exampleRepairer = Some (Return [8, 6, 4])"
    by code_simp
  have "passErrors exampleWorld [8, 6, 4] \<noteq> []"
    by (simp add: passErrors_def namespaceErrors_def exampleWorld_def exampleNamespaces_def
        List.map_filter_simps FinalError_def)
  then obtain e where "FinalError (passErrors exampleWorld [8, 6, 4]) = Some e"
    by (auto simp: FinalError_def)
  with Repair_pass [OF boot idle cands] obtain r'
    where run: "dbRepairer_Repair exampleWorld exampleRepairer =
      Some (Return (Some e), r',
            SetRunning 1 # map Call (passCalls exampleWorld [8, 6, 4]) @ [SetRunning 0])"
    by auto
  have "repairTimes ?w exampleRepairer = Some Panic"
    by (simp add: repairTimes_def)
  from Repair_panic [OF boot' idle this] obtain r''
    where run': "dbRepairer_Repair ?w exampleRepairer =
      Some (Panic, r'', [SetRunning 1, SetRunning 0])"
    by auto
  from Repair_clears_running [OF boot idle run] Repair_clears_running [OF boot' idle run']
    run run' boot idle
  show ?thesis by blast
qed

text \<open>
  C5: a pass over the repair times \<open>ts\<close> calls every owned namespace at every
  timestamp of \<open>ts\<close>, in order, whichever of the calls fail, between setting and
  clearing the running flag; it returns the aggregate of the errors collected, one
  aggregate for each timestamp with a failing namespace, and it returns nil exactly when
  no namespace failed at any timestamp.
\<close>

theorem Repair_attempts_all:
  assumes "IsBootstrapped w" and "running r = 0" and "repairTimes w r = Some (Return ts)"
  shows "\<exists>e r'. dbRepairer_Repair w r =
            Some (Return e, r',
                  SetRunning 1 #
                  map Call (concat (map (\<lambda>t. map (\<lambda>n. NamespaceRepair (nsID n) t)
                                              (getOwnedNamespaces w t)) ts)) @
                  [SetRunning 0]) \<and>
          e = FinalError
                (List.map_filter
                   (\<lambda>t. FinalError
                      (List.map_filter (\<lambda>n. map_option (Errorf (nsID n) t) (nsRepair n t))
                         (getOwnedNamespaces w t))) ts) \<and>
          (e = None \<longleftrightarrow>
             (\<forall>t\<in>set ts. \<forall>n\<in>set (getOwnedNamespaces w t). nsRepair n t = None))"
proof -
  have "FinalError (passErrors w ts) = None \<longleftrightarrow> passErrors w ts = []"
    by (simp add: FinalError_def)
  with Repair_pass [OF assms] show ?thesis
    by (simp add: passErrors_Nil)
      (simp add: passCalls_def passErrors_def namespaceCalls_def [abs_def]
        namespaceErrors_def [abs_def])
qed

theorem Repair_attempts_all_witness:
  "IsBootstrapped exampleWorld \<and> running exampleRepairer = 0 \<and>
   repairTimes exampleWorld exampleRepairer = Some (Return [8, 6, 4]) \<and>
   (\<exists>r'. dbRepairer_Repair exampleWorld exampleRepairer =
      Some (Return (Some (MultiError
              [MultiError [Errorf ''metrics'' 6 (ExternalError ''peer down'')]])),
            r',
            [SetRunning 1,
             Call (NamespaceRepair ''metrics'' 8), Call (NamespaceRepair ''traces'' 8),
             Call (NamespaceRepair ''metrics'' 6), Call (NamespaceRepair ''traces'' 6),
             Call (NamespaceRepair ''metrics'' 4), Call (NamespaceRepair ''traces'' 4),
             SetRunning 0]))"
proof -
  have boot: "IsBootstrapped exampleWorld" by (simp add: exampleWorld_def)
  have idle: "running exampleRepairer = 0" by (simp add: exampleRepairer_def)
  have cands: "repairTimes exampleWorld exampleRepairer = Some (Return [8, 6, 4])"
    by code_simp
  from Repair_attempts_all [OF boot idle cands] boot idle cands show ?thesis
    by (auto simp: exampleWorld_def exampleNamespaces_def List.map_filter_simps FinalError_def)
qed

text \<open>
  C4: after a pass over the repair times \<open>ts\<close>, every timestamp of \<open>ts\<close> has a ledger
  entry; where the attempt returned nil its status is Success and its failure count
  is unchanged, where the attempt failed its status is Failed and its failure count
  is one more than before. The entries of other timestamps are unchanged. No failure
  count decreases from one attempt of the pass to a later one.
\<close>

theorem Repair_updates_ledger:
  assumes boot: "IsBootstrapped w" and idle: "running r = 0"
    and cands: "repairTimes w r = Some (Return ts)"
  shows "\<exists>e r' calls. dbRepairer_Repair w r = Some (Return e, r', calls) \<and>
     repairStates r' = fst (repairLoop w ts (repairStates r, [], [])) \<and>
     (\<forall>t\<in>set ts.
        repairStates r' t \<noteq> None \<and>
        (fst (repairWithTime w t) = None \<longrightarrow>
           Status (lookupState (repairStates r') t) = repairSuccess \<and>
           NumFailures (lookupState (repairStates r') t) =
             NumFailures (lookupState (repairStates r) t)) \<and>
        (fst (repairWithTime w t) \<noteq> None \<longrightarrow>
           Status (lookupState (repairStates r') t) = repairFailed \<and>
           sint (NumFailures (lookupState (repairStates r') t)) =
             sint (NumFailures (lookupState (repairStates r) t)) + 1)) \<and>
     (\<forall>t. t \<notin> set ts \<longrightarrow> repairStates r' t = repairStates r t) \<and>
     (\<forall>i j t. i \<le> j \<longrightarrow>
        sint (NumFailures (lookupState (fst (repairLoop w (take i ts) (repairStates r, [], []))) t))
          \<le> sint (NumFailures
                (lookupState (fst (repairLoop w (take j ts) (repairStates r, [], []))) t)))"
proof -
  let ?st = "repairStates r"
  let ?L = "\<lambda>k. fst (repairLoop w (take k ts) (?st, [], []))"
  from repairTimes_sound [OF cands]
  have needs: "\<And>t. t \<in> set ts \<Longrightarrow> needsRepair r t" and dist: "distinct ts" by auto
  have ledger: "?L k t = (if t \<in> set (take k ts) then Some (recordedState w ?st t) else ?st t)"
    for k t
    using dist by (intro repairLoop_ledger) simp
  have final: "fst (repairLoop w ts (?st, [], [])) t =
      (if t \<in> set ts then Some (recordedState w ?st t) else ?st t)" for t
    using dist by (rule repairLoop_ledger)
  have entries: "\<forall>t\<in>set ts.
        fst (repairLoop w ts (?st, [], [])) t \<noteq> None \<and>
        (fst (repairWithTime w t) = None \<longrightarrow>
           Status (lookupState (fst (repairLoop w ts (?st, [], []))) t) = repairSuccess \<and>
           NumFailures (lookupState (fst (repairLoop w ts (?st, [], []))) t) =
             NumFailures (lookupState ?st t)) \<and>
        (fst (repairWithTime w t) \<noteq> None \<longrightarrow>
           Status (lookupState (fst (repairLoop w ts (?st, [], []))) t) = repairFailed \<and>
           sint (NumFailures (lookupState (fst (repairLoop w ts (?st, [], []))) t)) =
             sint (NumFailures (lookupState ?st t)) + 1)"
  proof
    fix t assume t: "t \<in> set ts"
    then have eq: "fst (repairLoop w ts (?st, [], [])) t = Some (recordedState w ?st t)"
      by (simp add: final)
    from needsRepair_no_overflow [OF needs [OF t]] eq
    show "fst (repairLoop w ts (?st, [], [])) t \<noteq> None \<and>
        (fst (repairWithTime w t) = None \<longrightarrow>
           Status (lookupState (fst (repairLoop w ts (?st, [], []))) t) = repairSuccess \<and>
           NumFailures (lookupState (fst (repairLoop w ts (?st, [], []))) t) =
             NumFailures (lookupState ?st t)) \<and>
        (fst (repairWithTime w t) \<noteq> None \<longrightarrow>
           Status (lookupState (fst (repairLoop w ts (?st, [], []))) t) = repairFailed \<and>
           sint (NumFailures (lookupState (fst (repairLoop w ts (?st, [], []))) t)) =
             sint (NumFailures (lookupState ?st t)) + 1)"
      by (simp add: lookupState_Some recordedState_success recordedState_failure)
  qed
  have others: "\<forall>t. t \<notin> set ts \<longrightarrow> fst (repairLoop w ts (?st, [], [])) t = ?st t"
    by (simp add: final)
  have mono: "sint (NumFailures (lookupState (?L i) t)) \<le> sint (NumFailures (lookupState (?L j) t))"
    if "i \<le> j" for i j t
  proof (cases "t \<in> set (take j ts)")
    case False
    moreover from that have "set (take i ts) \<subseteq> set (take j ts)" by (rule set_take_subset_set_take)
    ultimately have "t \<notin> set (take i ts)" by auto
    with False have "?L i t = ?st t" and "?L j t = ?st t" by (simp_all add: ledger)
    then show ?thesis by (simp add: lookupState_def)
  next
    case True
    then have j: "lookupState (?L j) t = recordedState w ?st t"
      by (simp add: ledger lookupState_Some)
    from True have "t \<in> set ts" by (rule in_set_takeD)
    then have up: "sint (NumFailures (lookupState ?st t))
        \<le> sint (NumFailures (recordedState w ?st t))"
      by (intro recordedState_monotone needs)
    show ?thesis
    proof (cases "t \<in> set (take i ts)")
      case True
      then have "lookupState (?L i) t = recordedState w ?st t"
        by (simp add: ledger lookupState_Some)
      with j show ?thesis by simp
    next
      case False
      then have "?L i t = ?st t" by (simp add: ledger)
      then have "lookupState (?L i) t = lookupState ?st t" by (simp add: lookupState_def)
      with j up show ?thesis by simp
    qed
  qed
  from Repair_pass [OF boot idle cands] entries others mono show ?thesis by simp
qed

theorem Repair_updates_ledger_witness:
  "IsBootstrapped exampleWorld \<and> running exampleRepairer = 0 \<and>
   repairTimes exampleWorld exampleRepairer = Some (Return [8, 6, 4]) \<and>
   fst (repairWithTime exampleWorld 8) = None \<and>
   fst (repairWithTime exampleWorld 6) \<noteq> None \<and>
   sint (NumFailures (lookupState (repairStates exampleRepairer) 6)) = 1 \<and>
   (\<exists>e r' calls. dbRepairer_Repair exampleWorld exampleRepairer = Some (Return e, r', calls) \<and>
      Status (lookupState (repairStates r') 8) = repairSuccess \<and>
      Status (lookupState (repairStates r') 6) = repairFailed \<and>
      sint (NumFailures (lookupState (repairStates r') 6)) = 2 \<and>
      repairStates r' 100 = repairStates exampleRepairer 100) \<and>
   sint (NumFailures (lookupState
           (fst (repairLoop exampleWorld (take 1 [8, 6, 4])
                   (repairStates exampleRepairer, [], []))) 6))
     \<le> sint (NumFailures (lookupState
           (fst (repairLoop exampleWorld (take 2 [8, 6, 4])
                   (repairStates exampleRepairer, [], []))) 6))"
proof -
  have boot: "IsBootstrapped exampleWorld" by (simp add: exampleWorld_def)
  have idle: "running exampleRepairer = 0" by (simp add: exampleRepairer_def)
  have cands: "repairTimes exampleWorld exampleRepairer = Some (Return [8, 6, 4])"
    by code_simp
  have ok: "fst (repairWithTime exampleWorld 8) = None"
    and bad: "fst (repairWithTime exampleWorld 6) \<noteq> None"
    by (simp_all add: repairWithTime_def exampleWorld_def exampleNamespaces_def
        NewMultiError_def multiErrAdd_def FinalError_def)
  have old: "sint (NumFailures (lookupState (repairStates exampleRepairer) 6)) = 1"
    by (simp add: exampleRepairer_def lookupState_def)
  from Repair_updates_ledger [OF boot idle cands] obtain e r' calls
    where run: "dbRepairer_Repair exampleWorld exampleRepairer = Some (Return e, r', calls)"
      and entries: "\<forall>t\<in>set [8, 6, 4].
        repairStates r' t \<noteq> None \<and>
        (fst (repairWithTime exampleWorld t) = None \<longrightarrow>
           Status (lookupState (repairStates r') t) = repairSuccess \<and>
           NumFailures (lookupState (repairStates r') t) =
             NumFailures (lookupState (repairStates exampleRepairer) t)) \<and>
        (fst (repairWithTime exampleWorld t) \<noteq> None \<longrightarrow>
           Status (lookupState (repairStates r') t) = repairFailed \<and>
           sint (NumFailures (lookupState (repairStates r') t)) =
             sint (NumFailures (lookupState (repairStates exampleRepairer) t)) + 1)"
      and others: "\<forall>t. t \<notin> set [8, 6, 4] \<longrightarrow> repairStates r' t = repairStates exampleRepairer t"
      and mono: "\<forall>i j t. i \<le> j \<longrightarrow>
        sint (NumFailures (lookupState
               (fst (repairLoop exampleWorld (take i [8, 6, 4])
                       (repairStates exampleRepairer, [], []))) t))
          \<le> sint (NumFailures (lookupState
               (fst (repairLoop exampleWorld (take j [8, 6, 4])
                       (repairStates exampleRepairer, [], []))) t))"
    by blast
  from entries ok have "Status (lookupState (repairStates r') 8) = repairSuccess" by simp
  moreover from entries bad old
  have "Status (lookupState (repairStates r') 6) = repairFailed"
    and "sint (NumFailures (lookupState (repairStates r') 6)) = 2"
    by simp_all
  moreover from others have "repairStates r' 100 = repairStates exampleRepairer 100" by simp
  moreover have "(1::nat) \<le> 2" by simp
  with mono have "sint (NumFailures (lookupState
           (fst (repairLoop exampleWorld (take 1 [8, 6, 4])
                   (repairStates exampleRepairer, [], []))) 6))
     \<le> sint (NumFailures (lookupState
           (fst (repairLoop exampleWorld (take 2 [8, 6, 4])
                   (repairStates exampleRepairer, [], []))) 6))"
    by blast
  ultimately show ?thesis using boot idle cands ok bad old run by blast
qed

section \<open>Properties of the run loop\<close>

lemma timeTruncate_mono: "a \<le> b \<Longrightarrow> timeTruncate a d \<le> timeTruncate b d"
proof (cases "0 < sint d")
  case False
  assume "a \<le> b"
  with False show ?thesis by (simp add: timeTruncate_def)
next
  case True
  assume "a \<le> b"
  with True have "a div sint d \<le> b div sint d" by (simp add: zdiv_mono1)
  with True have "sint d * (a div sint d) \<le> sint d * (b div sint d)" by simp
  moreover have "a - a mod sint d = sint d * (a div sint d)" for a
    by (simp add: minus_mod_eq_mult_div)
  ultimately show ?thesis using True by (simp add: timeTruncate_def)
qed

lemma runLoop_invoked:
  "(s, n) \<in> set (runLoop r cur ticks) \<Longrightarrow>
   s = valueTruncate n (repairInterval r) \<and>
   \<not> valueBefore n (valueAdd s (repairTimeOffset r + repairTimeJitter r)) \<and>
   (\<exists>k\<in>set ticks. \<not> readClosed k \<and> readNow k = n)"
proof (induction ticks arbitrary: cur)
  case Nil
  then show ?case by simp
next
  case (Cons k ticks)
  then show ?case by (auto simp: Let_def split: if_splits)
qed

lemma runLoop_adjacent: "distinct_adj (cur # map fst (runLoop r cur ticks))"
proof (induction ticks arbitrary: cur)
  case Nil
  show ?case by simp
next
  case (Cons k ticks)
  show ?case using Cons.IH by (simp add: Let_def)
qed

text \<open>
  With readings in one Location, two interval starts are equal exactly when their
  instants are.
\<close>

lemma runLoop_increasing_from:
  "sorted (map (\<lambda>k. instant (readNow k)) ticks) \<Longrightarrow>
   \<forall>k\<in>set ticks. location (readNow k) = l \<Longrightarrow>
   location cur = l \<Longrightarrow>
   \<forall>k\<in>set ticks. instant cur \<le> timeTruncate (instant (readNow k)) (repairInterval r) \<Longrightarrow>
   sorted_wrt (<) (instant cur # map (\<lambda>c. instant (fst c)) (runLoop r cur ticks))"
proof (induction ticks arbitrary: cur)
  case Nil
  show ?case by simp
next
  case (Cons k ticks)
  let ?s = "valueTruncate (readNow k) (repairInterval r)"
  from Cons.prems have sorted: "sorted (map (\<lambda>k. instant (readNow k)) ticks)"
    and later: "\<forall>k'\<in>set ticks. instant (readNow k) \<le> instant (readNow k')"
    and locs: "\<forall>k'\<in>set ticks. location (readNow k') = l"
    and loc: "location (readNow k) = l" and cur: "location cur = l"
    and lower: "\<forall>k'\<in>set ticks.
        instant cur \<le> timeTruncate (instant (readNow k')) (repairInterval r)"
    and here: "instant cur \<le> instant ?s"
    by (simp_all add: valueTruncate_def)
  from later have next_lower: "\<forall>k'\<in>set ticks.
      instant ?s \<le> timeTruncate (instant (readNow k')) (repairInterval r)"
    by (simp add: timeTruncate_mono valueTruncate_def)
  from loc have s_loc: "location ?s = l" by (simp add: valueTruncate_def)
  have keep: "sorted_wrt (<) (instant cur # map (\<lambda>c. instant (fst c)) (runLoop r cur ticks))"
    using sorted locs cur lower by (rule Cons.IH)
  have move: "sorted_wrt (<) (instant ?s # map (\<lambda>c. instant (fst c)) (runLoop r ?s ticks))"
    using sorted locs s_loc next_lower by (rule Cons.IH)
  have "instant cur < instant ?s" if "?s \<noteq> cur"
  proof -
    from that cur s_loc have "instant ?s \<noteq> instant cur" by (auto intro: timeValue.equality)
    with here show ?thesis by simp
  qed
  with keep move show ?case by (auto simp: Let_def)
qed

lemma runLoop_increasing:
  "sorted (map (\<lambda>k. instant (readNow k)) ticks) \<Longrightarrow>
   \<forall>k\<in>set ticks. location (readNow k) = l \<Longrightarrow>
   sorted_wrt (<) (map (\<lambda>c. instant (fst c)) (runLoop r cur ticks))"
proof (induction ticks arbitrary: cur)
  case Nil
  show ?case by simp
next
  case (Cons k ticks)
  let ?s = "valueTruncate (readNow k) (repairInterval r)"
  from Cons.prems have sorted: "sorted (map (\<lambda>k. instant (readNow k)) ticks)"
    and later: "\<forall>k'\<in>set ticks. instant (readNow k) \<le> instant (readNow k')"
    and locs: "\<forall>k'\<in>set ticks. location (readNow k') = l"
    and loc: "location (readNow k) = l"
    by simp_all
  from later have lower: "\<forall>k'\<in>set ticks.
      instant ?s \<le> timeTruncate (instant (readNow k')) (repairInterval r)"
    by (simp add: timeTruncate_mono valueTruncate_def)
  from loc have "location ?s = l" by (simp add: valueTruncate_def)
  with sorted locs
  have "sorted_wrt (<) (instant ?s # map (\<lambda>c. instant (fst c)) (runLoop r ?s ticks))"
    using lower by (rule runLoop_increasing_from)
  with Cons.IH [OF sorted locs] show ?case by (auto simp: Let_def)
qed

lemma sint_add_no_overflow:
  fixes a b :: "64 word"
  assumes "- (2 ^ 63) \<le> sint a + sint b" and "sint a + sint b < 2 ^ 63"
  shows "sint (a + b) = sint a + sint b"
proof -
  from assms have "signed_take_bit 63 (sint a + sint b) = sint a + sint b"
    by (rule signed_take_bit_int_eq_self)
  then show ?thesis by (simp add: sint_word_ariths)
qed

text \<open>
  C9, as the code has it. Every call of \<open>repairFn\<close> is made for the interval start of
  the clock reading of its turn, and, when the sum of \<open>repairTimeOffset\<close> and
  \<open>repairTimeJitter\<close> does not overflow an \<^verbatim>\<open>int64\<close>, at a reading that is at or after
  intervalStart + repairTimeOffset + repairTimeJitter. Two calls in a row are never for
  the same \<open>intervalStart\<close>. When the clock readings never go back and all carry the
  same Location, the interval starts of the calls increase strictly, so no interval is
  repaired twice.
\<close>

theorem run_repairs:
  "(\<forall>(s, n)\<in>set (run r ticks).
      s = valueTruncate n (repairInterval r) \<and>
      (- (2 ^ 63) \<le> sint (repairTimeOffset r) + sint (repairTimeJitter r) \<and>
       sint (repairTimeOffset r) + sint (repairTimeJitter r) < 2 ^ 63 \<longrightarrow>
         instant s + sint (repairTimeOffset r) + sint (repairTimeJitter r) \<le> instant n)) \<and>
   distinct_adj (map fst (run r ticks)) \<and>
   (sorted (map (\<lambda>k. instant (readNow k)) ticks) \<and>
    (\<forall>k\<in>set ticks. location (readNow k) = l) \<longrightarrow>
      sorted_wrt (<) (map (\<lambda>c. instant (fst c)) (run r ticks)) \<and>
      distinct (map (\<lambda>c. instant (fst c)) (run r ticks)))"
proof (intro conjI impI)
  have "s = valueTruncate n (repairInterval r) \<and>
      (- (2 ^ 63) \<le> sint (repairTimeOffset r) + sint (repairTimeJitter r) \<and>
       sint (repairTimeOffset r) + sint (repairTimeJitter r) < 2 ^ 63 \<longrightarrow>
         instant s + sint (repairTimeOffset r) + sint (repairTimeJitter r) \<le> instant n)"
    if "(s, n) \<in> set (run r ticks)" for s n
  proof (intro conjI impI)
    from that have inv: "s = valueTruncate n (repairInterval r) \<and>
        \<not> valueBefore n (valueAdd s (repairTimeOffset r + repairTimeJitter r))"
      using runLoop_invoked [of s n r zeroTime ticks] unfolding run_def by blast
    then show "s = valueTruncate n (repairInterval r)" by blast
    assume "- (2 ^ 63) \<le> sint (repairTimeOffset r) + sint (repairTimeJitter r) \<and>
       sint (repairTimeOffset r) + sint (repairTimeJitter r) < 2 ^ 63"
    then have "sint (repairTimeOffset r + repairTimeJitter r) =
        sint (repairTimeOffset r) + sint (repairTimeJitter r)"
      by (intro sint_add_no_overflow) simp_all
    moreover from inv
    have "\<not> valueBefore n (valueAdd s (repairTimeOffset r + repairTimeJitter r))"
      by blast
    then have "\<not> instant n < instant s + sint (repairTimeOffset r + repairTimeJitter r)"
      by (simp add: valueBefore_def valueAdd_def timeBefore_def timeAdd_def)
    ultimately show "instant s + sint (repairTimeOffset r) + sint (repairTimeJitter r) \<le> instant n"
      by simp
  qed
  then show "\<forall>(s, n)\<in>set (run r ticks).
      s = valueTruncate n (repairInterval r) \<and>
      (- (2 ^ 63) \<le> sint (repairTimeOffset r) + sint (repairTimeJitter r) \<and>
       sint (repairTimeOffset r) + sint (repairTimeJitter r) < 2 ^ 63 \<longrightarrow>
         instant s + sint (repairTimeOffset r) + sint (repairTimeJitter r) \<le> instant n)"
    by blast
next
  from runLoop_adjacent [of zeroTime r ticks] show "distinct_adj (map fst (run r ticks))"
    unfolding run_def by (rule distinct_adj_ConsD)
next
  assume "sorted (map (\<lambda>k. instant (readNow k)) ticks) \<and>
    (\<forall>k\<in>set ticks. location (readNow k) = l)"
  then show inc: "sorted_wrt (<) (map (\<lambda>c. instant (fst c)) (run r ticks))"
    unfolding run_def by (intro runLoop_increasing) blast+
  then show "distinct (map (\<lambda>c. instant (fst c)) (run r ticks))"
    by (simp add: strict_sorted_iff)
qed

theorem run_repairs_witness:
  "sorted (map instant [timeAt ''Local'' 11, timeAt ''Local'' 12, timeAt ''Local'' 15,
     timeAt ''Local'' 22, timeAt ''Local'' 33]) \<and>
   - (2 ^ 63) \<le> sint (repairTimeOffset exampleRepairer) + sint (repairTimeJitter exampleRepairer) \<and>
   sint (repairTimeOffset exampleRepairer) + sint (repairTimeJitter exampleRepairer) < 2 ^ 63 \<and>
   run exampleRepairer exampleTicks =
     [(timeAt ''Local'' 10, timeAt ''Local'' 12), (timeAt ''Local'' 20, timeAt ''Local'' 22)] \<and>
   valueTruncate (timeAt ''Local'' 12) (repairInterval exampleRepairer) = timeAt ''Local'' 10 \<and>
   10 + sint (repairTimeOffset exampleRepairer) + sint (repairTimeJitter exampleRepairer) \<le> 12 \<and>
   distinct [instant (timeAt ''Local'' 10), instant (timeAt ''Local'' 20)]"
proof -
  have mono: "sorted (map (\<lambda>k. instant (readNow k)) exampleTicks)"
    by (simp add: exampleTicks_def reading_def timeAt_def)
  have locs: "\<forall>k\<in>set exampleTicks. location (readNow k) = Some ''Local''"
    by (simp add: exampleTicks_def reading_def timeAt_def)
  have trace: "run exampleRepairer exampleTicks =
      [(timeAt ''Local'' 10, timeAt ''Local'' 12), (timeAt ''Local'' 20, timeAt ''Local'' 22)]"
    by (simp add: run_def exampleTicks_def reading_def timeAt_def exampleRepairer_def
        zeroTime_def valueTruncate_def valueAdd_def valueBefore_def timeTruncate_def
        timeAdd_def timeBefore_def Let_def)
  from run_repairs [of exampleRepairer exampleTicks "Some ''Local''"] mono locs trace
  show ?thesis
    by (simp add: exampleRepairer_def timeAt_def valueTruncate_def)
qed

text \<open>
  C9 as stated fails in three ways. When the clock is set back, an interval is repaired
  again, since the loop remembers the last interval only: readings 12, 22 and 13 with
  intervals of 10 repair the interval that starts at 10 twice. When the clock moves
  forward but its readings change their Location, the comparison with \<^verbatim>\<open>==\<close> takes the
  same interval for a new one: readings 12 and 13 in two Locations repair the interval
  that starts at 10 twice. When \<open>repairTimeOffset + repairTimeJitter\<close> overflows, the
  target lies in the past: with both at 2 ^ 62 the pass runs at the reading 12.
\<close>

theorem run_repeats_interval_counterexample:
  "run exampleRepairer exampleTicksBackwards =
     [(timeAt ''Local'' 10, timeAt ''Local'' 12), (timeAt ''Local'' 20, timeAt ''Local'' 22),
      (timeAt ''Local'' 10, timeAt ''Local'' 13)] \<and>
   \<not> distinct (map fst (run exampleRepairer exampleTicksBackwards)) \<and>
   run exampleRepairer exampleTicksRelocated =
     [(timeAt ''Local'' 10, timeAt ''Local'' 12),
      (timeAt ''Asia/Tokyo'' 10, timeAt ''Asia/Tokyo'' 13)] \<and>
   instant (timeAt ''Local'' 12) \<le> instant (timeAt ''Asia/Tokyo'' 13) \<and>
   instant (timeAt ''Local'' 10) = instant (timeAt ''Asia/Tokyo'' 10) \<and>
   run exampleRepairerOverflow [reading ''Local'' 12] =
     [(timeAt ''Local'' 10, timeAt ''Local'' 12)] \<and>
   \<not> (10 + sint (repairTimeOffset exampleRepairerOverflow)
          + sint (repairTimeJitter exampleRepairerOverflow) \<le> 12)"
  by (simp add: run_def exampleTicksBackwards_def exampleTicksRelocated_def reading_def
      timeAt_def exampleRepairerOverflow_def exampleRepairer_def zeroTime_def
      valueTruncate_def valueAdd_def valueBefore_def timeTruncate_def timeAdd_def
      timeBefore_def Let_def)

section \<open>Properties of \<open>Repair\<close> of the shard repairer\<close>

text \<open>
  An error of the acquisition of the admin session, of the fetch of the peers' metadata
  or of \<open>AddPeerMetadata\<close> is returned at once with the empty comparison result; the
  comparer's \<open>Compare\<close> is not run and the recording function is not called.
\<close>

lemma shardRepair_session_error:
  "client r = Inl e \<Longrightarrow>
   shardRepairer_Repair r namespace t shard =
     (Return (emptyMetadataComparisonResult, Some e), [])"
  by (simp add: shardRepairer_Repair_def)

lemma shardRepair_peer_error:
  assumes "client r = Inr session"
    and "fst (FetchBlocksMetadata shard t (timeAdd t (blockSize r))) = Some found"
    and "FetchBlocksMetadataFromPeers session namespace (shardID shard) t
           (timeAdd t (blockSize r)) = Inl e \<or>
         (\<exists>peerIter.
            FetchBlocksMetadataFromPeers session namespace (shardID shard) t
              (timeAdd t (blockSize r)) = Inr peerIter \<and>
            addPeerMetadataErr r peerIter = Some e)"
  shows "\<exists>evs. shardRepairer_Repair r namespace t shard =
            (Return (emptyMetadataComparisonResult, Some e), evs) \<and>
          Compare \<notin> set evs \<and> (\<forall>n s res. Record n s res \<notin> set evs)"
  using assms
  by (auto simp: shardRepairer_Repair_def Let_def split: prod.splits)


end
